theory Spec2Isabelle
  imports Main "HOL-Library.Sublist"
begin

section \<open>Values, errors and the operating system\<close>

text \<open>
  The values the program stores under the key \<open>reads\<close>: a field of a csv row (a string),
  Python's \<open>None\<close> (the value \<open>csv.DictReader\<close> gives a column that a short row does not
  reach) and the integer literal \<open>0\<close>.
\<close>

datatype pyval = PyStr string | PyInt int | PyNone

text \<open>
  The two exceptions the modelled functions can raise: \<open>open\<close> fails with an \<open>OSError\<close>
  (carrying the file name), and a dictionary lookup of a missing key fails with a
  \<open>KeyError\<close> (carrying the key). Nothing in the source catches either.
\<close>

datatype error = OSError string | KeyError string

text \<open>
  The working directory after \<open>os.chdir\<close>. \<open>scandir\<close> is what \<open>os.scandir\<close> lists there:
  files and subdirectories, the latter with their own entries. \<open>open_read name\<close> is the
  outcome of \<open>open(name)\<close> followed by \<open>csv.reader\<close>: an error, or the rows the reader yields
  (each a list of fields, a blank line being the empty list). \<open>open_write name\<close> is the
  outcome of \<open>open(name, "w")\<close>. \<open>normcase\<close> is \<open>os.path.normcase\<close>: the identity on POSIX,
  lower-casing on Windows.
\<close>

datatype dir_entry = FileEntry string | DirEntry string "dir_entry list"

fun entry_name :: "dir_entry \<Rightarrow> string" where
  "entry_name (FileEntry name) = name"
| "entry_name (DirEntry name entries) = name"

record os_env =
  scandir :: "dir_entry list"
  open_read :: "string \<Rightarrow> error + string list list"
  open_write :: "string \<Rightarrow> error option"
  normcase :: "string \<Rightarrow> string"

section \<open>File discovery: \<open>glob.glob("*final_results.csv")\<close>\<close>

text \<open>
  \<open>fnmatch\<close> for patterns made of \<open>*\<close>, \<open>?\<close> and literal characters (the pattern of the
  source has no bracket expression): \<open>*\<close> matches any run of characters, \<open>?\<close> any single
  one, and the whole name must be consumed.
\<close>

fun fnmatch :: "string \<Rightarrow> string \<Rightarrow> bool" where
  "fnmatch [] [] = True"
| "fnmatch (c # cs) [] = False"
| "fnmatch [] (p # ps) = (p = CHR ''*'' \<and> fnmatch [] ps)"
| "fnmatch (c # cs) (p # ps) =
     (if p = CHR ''*'' then fnmatch (c # cs) ps \<or> fnmatch cs (p # ps)
      else (p = CHR ''?'' \<or> c = p) \<and> fnmatch cs ps)"

text \<open>\<open>fnmatch.filter\<close>: the pattern and every name are compared after \<open>normcase\<close>.\<close>

definition fnmatch_filter :: "(string \<Rightarrow> string) \<Rightarrow> string list \<Rightarrow> string \<Rightarrow> string list" where
  "fnmatch_filter nc names pat =
     (let pat' = nc pat in filter (\<lambda>name. fnmatch (nc name) pat') names)"

text \<open>\<open>glob._ishidden\<close>: the name starts with a dot (names of directory entries are never empty).\<close>

definition ishidden :: "string \<Rightarrow> bool" where
  "ishidden path = (path \<noteq> [] \<and> hd path = CHR ''.'')"

text \<open>
  \<open>glob.glob\<close> for a pattern without a directory part and without \<open>**\<close>: the names of the
  entries of the current directory, hidden ones dropped unless the pattern is hidden
  itself, filtered by \<open>fnmatch\<close>. The order is the order of the listing.
\<close>

definition glob :: "os_env \<Rightarrow> string \<Rightarrow> string list" where
  "glob env pattern =
     (let names = map entry_name (scandir env);
          names' = (if ishidden pattern then names else filter (\<lambda>x. \<not> ishidden x) names)
      in fnmatch_filter (normcase env) names' pattern)"

section \<open>\<open>shorten_name\<close>\<close>

text \<open>
  \<open>str.split(sep)\<close> for a non-empty separator: the pieces between the occurrences of
  \<open>sep\<close>, found from the left. \<open>acc\<close> is the piece being read. (Python raises
  \<open>ValueError\<close> for an empty separator; the source's separator is a non-empty literal.)
\<close>

function str_split_from :: "string \<Rightarrow> string \<Rightarrow> string \<Rightarrow> string list" where
  "str_split_from sep acc s =
     (if s = [] then [acc]
      else if sep \<noteq> [] \<and> prefix sep s then acc # str_split_from sep [] (drop (length sep) s)
      else str_split_from sep (acc @ [hd s]) (tl s))"
  by pat_completeness auto
termination
  by (relation "measure (\<lambda>(sep, acc, s). length s)") auto

declare str_split_from.simps [simp del]

definition str_split :: "string \<Rightarrow> string \<Rightarrow> string list" where
  "str_split s sep = str_split_from sep [] s"

text \<open>
  \<open>shorten_name(f)\<close> reads \<open>f.name\<close>, the name the file was opened with; the model takes
  that name. \<open>split_filename[0]\<close> is the first piece (the list is never empty).
\<close>

definition shorten_name :: "string \<Rightarrow> string" where
  "shorten_name f_name =
     (let split_filename = str_split f_name ''_final_results.csv'';
          short_filename = hd split_filename
      in short_filename)"

section \<open>\<open>csv.DictReader\<close>\<close>

text \<open>
  A line of the reader is a dictionary from column names to values. \<open>dict(zip(fieldnames,
  row))\<close> stores the fields from left to right, so a repeated column name keeps the last
  field; the columns a short row does not reach are then set to \<open>None\<close>. (A row longer than
  the header also gets the extra fields under the key \<open>None\<close>; that key is not a string
  and no lookup of the source reaches it, so the model leaves it out.)
\<close>

type_synonym pydict = "string \<rightharpoonup> pyval"

definition DictReader_row :: "string list \<Rightarrow> string list \<Rightarrow> pydict" where
  "DictReader_row fieldnames row =
     (let d = fold (\<lambda>(k, v) d. d(k \<mapsto> PyStr v)) (zip fieldnames row) Map.empty;
          lf = length fieldnames;
          lr = length row
      in if lf > lr then fold (\<lambda>key d. d(key \<mapsto> PyNone)) (drop lr fieldnames) d else d)"

text \<open>
  The first row of the file is the header; every later row that is not blank becomes a
  line. A file without any row yields no line.
\<close>

definition DictReader :: "string list list \<Rightarrow> pydict list" where
  "DictReader rows =
     (case rows of
        [] \<Rightarrow> []
      | fieldnames # rest \<Rightarrow> map (DictReader_row fieldnames) (filter (\<lambda>row. row \<noteq> []) rest))"

section \<open>\<open>create_species_dict\<close>\<close>

record search_results =
  filename :: string
  reads :: pyval

text \<open>
  The inner loop \<open>for line in reader\<close>. The state is \<open>species_counter\<close> and
  \<open>results_list\<close>; a missing key ends the loop with the \<open>KeyError\<close>.
\<close>

fun scan_lines ::
  "string \<Rightarrow> string \<Rightarrow> pydict list \<Rightarrow> nat \<times> search_results list
     \<Rightarrow> error + nat \<times> search_results list" where
  "scan_lines short_filename search_species [] st = Inr st"
| "scan_lines short_filename search_species (line # lines) (species_counter, results_list) =
     (case line ''Species'' of
        None \<Rightarrow> Inl (KeyError ''Species'')
      | Some sp \<Rightarrow>
          if sp = PyStr search_species then
            (case line ''Reads'' of
               None \<Rightarrow> Inl (KeyError ''Reads'')
             | Some r \<Rightarrow>
                 scan_lines short_filename search_species lines
                   (species_counter + 1,
                    results_list @ [\<lparr>filename = short_filename, reads = r\<rparr>]))
          else scan_lines short_filename search_species lines (species_counter, results_list))"

text \<open>The outer loop \<open>for csv_file in csv_list\<close>, with \<open>results_list\<close> as its state.\<close>

fun csv_loop ::
  "os_env \<Rightarrow> string \<Rightarrow> string list \<Rightarrow> search_results list \<Rightarrow> error + search_results list" where
  "csv_loop env search_species [] results_list = Inr results_list"
| "csv_loop env search_species (csv_file # rest) results_list =
     (case open_read env csv_file of
        Inl e \<Rightarrow> Inl e
      | Inr rows \<Rightarrow>
          (case scan_lines (shorten_name csv_file) search_species (DictReader rows)
                  (0, results_list) of
             Inl e \<Rightarrow> Inl e
           | Inr (species_counter, results_list') \<Rightarrow>
               csv_loop env search_species rest
                 (if species_counter = 0
                  then results_list' @ [\<lparr>filename = shorten_name csv_file, reads = PyInt 0\<rparr>]
                  else results_list')))"

definition create_species_dict ::
  "os_env \<Rightarrow> string list \<Rightarrow> string \<Rightarrow> error + search_results list" where
  "create_species_dict env csv_list search_species = csv_loop env search_species csv_list []"

section \<open>\<open>results_to_csv\<close>\<close>

text \<open>\<open>str\<close> of an integer, in decimal.\<close>

function str_nat :: "nat \<Rightarrow> string" where
  "str_nat n =
     (if n < 10 then [char_of (48 + n)] else str_nat (n div 10) @ [char_of (48 + n mod 10)])"
  by pat_completeness auto
termination
  by (relation "measure (\<lambda>n. n)") auto

declare str_nat.simps [simp del]

definition str_int :: "int \<Rightarrow> string" where
  "str_int i = (if i < 0 then CHR ''-'' # str_nat (nat (- i)) else str_nat (nat i))"

text \<open>
  The csv writer with the default (excel) dialect: \<open>None\<close> is written as the empty
  string, a string as it is, any other value through \<open>str\<close>; a field holding the
  delimiter, the quote character, a carriage return or a line feed is put in quotes with
  its quotes doubled; a row ends with carriage return and line feed.
\<close>

definition csv_field :: "pyval \<Rightarrow> string" where
  "csv_field v = (case v of PyNone \<Rightarrow> [] | PyStr s \<Rightarrow> s | PyInt i \<Rightarrow> str_int i)"

definition csv_quote :: "string \<Rightarrow> string" where
  "csv_quote s =
     (if list_ex (\<lambda>c. c = CHR '','' \<or> c = CHR 0x22 \<or> c = CHR 0x0D \<or> c = CHR 0x0A) s
      then [CHR 0x22] @ concat (map (\<lambda>c. if c = CHR 0x22 then [c, c] else [c]) s) @ [CHR 0x22]
      else s)"

fun join_fields :: "string list \<Rightarrow> string" where
  "join_fields [] = []"
| "join_fields [s] = s"
| "join_fields (s # t # ss) = s @ [CHR '',''] @ join_fields (t # ss)"

definition writerow :: "pyval list \<Rightarrow> string" where
  "writerow row =
     (if map csv_field row = [[]] then [CHR 0x22, CHR 0x22]
      else join_fields (map (csv_quote \<circ> csv_field) row)) @ [CHR 0x0D, CHR 0x0A]"

text \<open>
  \<open>csv.DictWriter\<close> over the columns \<open>filename\<close>, \<open>reads\<close>: a dictionary becomes the row of
  its two values, in the order of the columns.
\<close>

definition csv_columns :: "string list" where
  "csv_columns = [''filename'', ''reads'']"

definition dict_to_list :: "search_results \<Rightarrow> pyval list" where
  "dict_to_list rowdict = [PyStr (filename rowdict), reads rowdict]"

definition writer_text :: "search_results list \<Rightarrow> string" where
  "writer_text results_list =
     writerow (map PyStr csv_columns) @ concat (map (writerow \<circ> dict_to_list) results_list)"

text \<open>
  \<open>results_to_csv\<close> opens \<open>search_species + ".csv"\<close> for writing and writes the header and
  one row for each dictionary. The result is the name of the file and the text written.
\<close>

definition results_to_csv ::
  "os_env \<Rightarrow> string \<Rightarrow> search_results list \<Rightarrow> error + string \<times> string" where
  "results_to_csv env search_species results_list =
     (let csv_filename = search_species in
      case open_write env (csv_filename @ ''.csv'') of
        Some e \<Rightarrow> Inl e
      | None \<Rightarrow> Inr (csv_filename @ ''.csv'', writer_text results_list))"

section \<open>The pipeline of \<open>main\<close>\<close>

text \<open>
  \<open>main\<close> from the listing of the working directory to the exported table: discovery,
  aggregation, export. The prompts, the console output and the chart drawn afterwards
  from the exported file are not part of the model.
\<close>

definition main :: "os_env \<Rightarrow> string \<Rightarrow> error + string \<times> string" where
  "main env search_species =
     (let csv_list = glob env ''*final_results.csv'' in
      case create_species_dict env csv_list search_species of
        Inl e \<Rightarrow> Inl e
      | Inr results_list \<Rightarrow> results_to_csv env search_species results_list)"


section \<open>What the claims speak about\<close>

text \<open>
  The filename with a literal suffix removed, as the specification words the display name
  (unchanged when the suffix is absent).
\<close>

definition remove_suffix :: "string \<Rightarrow> string \<Rightarrow> string" where
  "remove_suffix suf s = (if suffix suf s then take (length s - length suf) s else s)"

text \<open>The rows of a file that opens (no rows for one that does not).\<close>

definition rows_of :: "os_env \<Rightarrow> string \<Rightarrow> string list list" where
  "rows_of env csv_file = (case open_read env csv_file of Inl e \<Rightarrow> [] | Inr rows \<Rightarrow> rows)"

text \<open>The lines of a file whose \<open>Species\<close> field equals the query exactly.\<close>

definition species_lines :: "string \<Rightarrow> string list list \<Rightarrow> pydict list" where
  "species_lines q rows = filter (\<lambda>line. line ''Species'' = Some (PyStr q)) (DictReader rows)"

text \<open>
  The records one file contributes: one for each matching line, with that line's \<open>Reads\<close>
  field, or the single record with \<open>reads = 0\<close> when no line matches.
\<close>

definition file_records :: "string \<Rightarrow> string \<Rightarrow> string list list \<Rightarrow> search_results list" where
  "file_records q csv_file rows =
     (if species_lines q rows = []
      then [\<lparr>filename = shorten_name csv_file, reads = PyInt 0\<rparr>]
      else map (\<lambda>line. \<lparr>filename = shorten_name csv_file, reads = the (line ''Reads'')\<rparr>)
             (species_lines q rows))"

definition aggregate :: "os_env \<Rightarrow> string \<Rightarrow> string list \<Rightarrow> search_results list" where
  "aggregate env q csv_list = concat (map (\<lambda>F. file_records q F (rows_of env F)) csv_list)"

text \<open>
  A line the inner loop gets past: it has the key \<open>Species\<close>, and the key \<open>Reads\<close> too when
  it matches the query. A file the outer loop gets past: it opens and all its lines do.
\<close>

definition line_ok :: "string \<Rightarrow> pydict \<Rightarrow> bool" where
  "line_ok q line =
     (case line ''Species'' of
        None \<Rightarrow> False
      | Some sp \<Rightarrow> sp \<noteq> PyStr q \<or> line ''Reads'' \<noteq> None)"

definition file_ok :: "os_env \<Rightarrow> string \<Rightarrow> string \<Rightarrow> bool" where
  "file_ok env q csv_file =
     (case open_read env csv_file of
        Inl e \<Rightarrow> False
      | Inr rows \<Rightarrow> list_all (line_ok q) (DictReader rows))"

section \<open>Example directories\<close>

text \<open>
  The scenario of the specification: \<open>A_final_results.csv\<close> with the rows (SpeciesX, 10),
  (SpeciesY, 3), (SpeciesX, 7) and \<open>B_final_results.csv\<close> with the row (SpeciesY, 5), both
  under the header \<open>Species, Reads\<close>, on a POSIX system.
\<close>

definition rows_A :: "string list list" where
  "rows_A = [[''Species'', ''Reads''], [''SpeciesX'', ''10''], [''SpeciesY'', ''3''],
             [''SpeciesX'', ''7'']]"

definition rows_B :: "string list list" where
  "rows_B = [[''Species'', ''Reads''], [''SpeciesY'', ''5'']]"

definition env_scenario :: os_env where
  "env_scenario =
     \<lparr>scandir = [FileEntry ''A_final_results.csv'', FileEntry ''B_final_results.csv''],
      open_read = (\<lambda>name. if name = ''A_final_results.csv'' then Inr rows_A
                           else if name = ''B_final_results.csv'' then Inr rows_B
                           else Inl (OSError name)),
      open_write = (\<lambda>name. None),
      normcase = (\<lambda>s. s)\<rparr>"

text \<open>
  The same two files among other entries: a hidden file, a subdirectory with a matching
  file inside, a text file, and a file whose name matches in upper case only.
\<close>

definition env_mixed :: os_env where
  "env_mixed =
     \<lparr>scandir = [FileEntry ''.old_final_results.csv'', FileEntry ''A_final_results.csv'',
                 DirEntry ''raw'' [FileEntry ''C_final_results.csv''], FileEntry ''notes.txt'',
                 FileEntry ''D_FINAL_RESULTS.CSV'', FileEntry ''B_final_results.csv''],
      open_read = (\<lambda>name. if name = ''A_final_results.csv'' then Inr rows_A
                           else if name = ''B_final_results.csv'' then Inr rows_B
                           else if name = ''notes.txt'' then Inr [[''to do'']]
                           else Inr rows_B),
      open_write = (\<lambda>name. None),
      normcase = (\<lambda>s. s)\<rparr>"

text \<open>
  Files that are not well formed: one whose header lacks \<open>Species\<close> and that has a data
  row, one that cannot be opened, and one that holds nothing but a header without
  \<open>Species\<close>.
\<close>

definition env_broken :: os_env where
  "env_broken =
     \<lparr>scandir = [FileEntry ''B_final_results.csv'', FileEntry ''taxa_final_results.csv'',
                 FileEntry ''locked_final_results.csv'', FileEntry ''empty_final_results.csv''],
      open_read = (\<lambda>name. if name = ''B_final_results.csv'' then Inr rows_B
                           else if name = ''taxa_final_results.csv''
                             then Inr [[''Taxon'', ''Reads''], [''SpeciesX'', ''4'']]
                           else if name = ''empty_final_results.csv''
                             then Inr [[''Taxon'', ''Reads'']]
                           else Inl (OSError name)),
      open_write = (\<lambda>name. None),
      normcase = (\<lambda>s. s)\<rparr>"


section \<open>Properties of \<open>str.split\<close> and \<open>shorten_name\<close>\<close>

lemma str_split_from_Nil: "str_split_from sep acc [] = [acc]"
  by (subst str_split_from.simps) simp

lemma str_split_from_hit:
  "sep \<noteq> [] \<Longrightarrow> prefix sep (x # xs) \<Longrightarrow>
   str_split_from sep acc (x # xs) = acc # str_split_from sep [] (drop (length sep) (x # xs))"
  by (subst str_split_from.simps) simp

lemma str_split_from_miss:
  "\<not> prefix sep (x # xs) \<Longrightarrow>
   str_split_from sep acc (x # xs) = str_split_from sep (acc @ [x]) xs"
  by (subst str_split_from.simps) simp

lemma str_split_from_nonempty: "str_split_from sep acc s \<noteq> []"
  by (induction sep acc s rule: str_split_from.induct) (subst str_split_from.simps, simp)

lemma str_split_from_absent:
  "\<not> sublist sep s \<Longrightarrow> str_split_from sep acc s = [acc @ s]"
proof (induction s arbitrary: acc)
  case Nil
  show ?case by (simp add: str_split_from_Nil)
next
  case (Cons x xs)
  have np: "\<not> prefix sep (x # xs)" and ns: "\<not> sublist sep xs"
    using Cons.prems by (simp_all add: sublist_Cons_right)
  have "str_split_from sep acc (x # xs) = str_split_from sep (acc @ [x]) xs"
    using np by (rule str_split_from_miss)
  also have "\<dots> = [(acc @ [x]) @ xs]"
    using ns by (rule Cons.IH)
  finally show ?case by simp
qed

lemma str_split_from_first:
  "sep \<noteq> [] \<Longrightarrow> \<forall>i<length pre. \<not> prefix sep (drop i (pre @ sep @ post))
    \<Longrightarrow> hd (str_split_from sep acc (pre @ sep @ post)) = acc @ pre"
proof (induction pre arbitrary: acc)
  case Nil
  from Nil.prems(1) obtain c cs where sep: "sep = c # cs" by (cases sep) auto
  have "prefix sep (c # cs @ post)" by (simp add: sep)
  from str_split_from_hit [OF Nil.prems(1) this, of acc]
  show ?case by (simp add: sep)
next
  case (Cons x xs)
  have "0 < length (x # xs)" by simp
  with Cons.prems(2) have "\<not> prefix sep (drop 0 ((x # xs) @ sep @ post))" by blast
  then have np: "\<not> prefix sep (x # (xs @ sep @ post))" by simp
  have rest: "\<forall>i<length xs. \<not> prefix sep (drop i (xs @ sep @ post))"
  proof (intro allI impI)
    fix i assume "i < length xs"
    then have "Suc i < length (x # xs)" by simp
    with Cons.prems(2) have "\<not> prefix sep (drop (Suc i) ((x # xs) @ sep @ post))" by blast
    then show "\<not> prefix sep (drop i (xs @ sep @ post))" by simp
  qed
  have "str_split_from sep acc ((x # xs) @ sep @ post)
          = str_split_from sep (acc @ [x]) (xs @ sep @ post)"
    using str_split_from_miss [OF np] by simp
  then show ?case
    using Cons.IH [OF Cons.prems(1) rest, of "acc @ [x]"] by simp
qed

lemma shorten_name_before_first:
  assumes "f = pre @ ''_final_results.csv'' @ post"
    and "\<forall>i<length pre. \<not> prefix ''_final_results.csv'' (drop i f)"
  shows "shorten_name f = pre"
  using str_split_from_first [of "''_final_results.csv''" pre post "[]"] assms
  by (simp add: shorten_name_def str_split_def)

section \<open>Properties of the discovery pattern\<close>

lemma fnmatch_literal:
  "CHR ''*'' \<notin> set pat \<Longrightarrow> CHR ''?'' \<notin> set pat \<Longrightarrow> fnmatch name pat \<longleftrightarrow> name = pat"
proof (induction pat arbitrary: name)
  case Nil
  then show ?case by (cases name) simp_all
next
  case (Cons p ps)
  then show ?case by (cases name) auto
qed

lemma fnmatch_star_literal:
  "CHR ''*'' \<notin> set lit \<Longrightarrow> CHR ''?'' \<notin> set lit \<Longrightarrow>
     fnmatch name (CHR ''*'' # lit) \<longleftrightarrow> suffix lit name"
proof (induction name)
  case Nil
  then show ?case using fnmatch_literal [of lit "[]"] by auto
next
  case (Cons c cs)
  then show ?case using fnmatch_literal [of lit "c # cs"] by (auto simp: suffix_Cons)
qed

lemma fnmatch_final_results:
  "fnmatch name ''*final_results.csv'' \<longleftrightarrow> suffix ''final_results.csv'' name"
  using fnmatch_star_literal [of "''final_results.csv''" name] by simp

lemma glob_filter:
  assumes "normcase env ''*final_results.csv'' = ''*final_results.csv''"
  shows "glob env ''*final_results.csv'' =
    filter (\<lambda>n. \<not> ishidden n \<and> suffix ''final_results.csv'' (normcase env n))
      (map entry_name (scandir env))"
  using assms
  by (simp add: glob_def fnmatch_filter_def ishidden_def fnmatch_final_results Let_def)

section \<open>Properties of the two loops\<close>

lemma scan_lines_ok:
  "list_all (line_ok q) lines \<Longrightarrow>
   scan_lines short q lines (c, rs) =
     Inr (c + length (filter (\<lambda>line. line ''Species'' = Some (PyStr q)) lines),
          rs @ map (\<lambda>line. \<lparr>filename = short, reads = the (line ''Reads'')\<rparr>)
                 (filter (\<lambda>line. line ''Species'' = Some (PyStr q)) lines))"
proof (induction lines arbitrary: c rs)
  case Nil
  then show ?case by simp
next
  case (Cons l ls)
  from Cons.prems have ok: "line_ok q l" and rest: "list_all (line_ok q) ls" by simp_all
  from ok obtain sp where sp: "l ''Species'' = Some sp"
    by (cases "l ''Species''") (simp_all add: line_ok_def)
  show ?case
  proof (cases "sp = PyStr q")
    case False
    then show ?thesis using sp Cons.IH [OF rest, of c rs] by simp
  next
    case True
    with ok sp obtain r where r: "l ''Reads'' = Some r"
      by (cases "l ''Reads''") (simp_all add: line_ok_def)
    show ?thesis
      using sp True r Cons.IH [OF rest, of "c + 1" "rs @ [\<lparr>filename = short, reads = r\<rparr>]"]
      by simp
  qed
qed

lemma scan_lines_fail:
  "\<not> list_all (line_ok q) lines \<Longrightarrow>
   scan_lines short q lines (c, rs) = Inl (KeyError ''Species'') \<or>
   scan_lines short q lines (c, rs) = Inl (KeyError ''Reads'')"
proof (induction lines arbitrary: c rs)
  case Nil
  then show ?case by simp
next
  case (Cons l ls)
  show ?case
  proof (cases "l ''Species''")
    case None
    then show ?thesis by simp
  next
    case (Some sp)
    show ?thesis
    proof (cases "sp = PyStr q")
      case False
      then have "line_ok q l" using Some by (simp add: line_ok_def)
      then have "\<not> list_all (line_ok q) ls" using Cons.prems by simp
      from Cons.IH [OF this, of c rs] Some False show ?thesis by simp
    next
      case True
      show ?thesis
      proof (cases "l ''Reads''")
        case None
        then show ?thesis using Some True by simp
      next
        case (Some r)
        then have "line_ok q l" using \<open>l ''Species'' = Some sp\<close> by (simp add: line_ok_def)
        then have "\<not> list_all (line_ok q) ls" using Cons.prems by simp
        from Cons.IH [OF this, of "c + 1" "rs @ [\<lparr>filename = short, reads = r\<rparr>]"]
        show ?thesis using Some True \<open>l ''Species'' = Some sp\<close> by simp
      qed
    qed
  qed
qed

lemma scan_lines_no_species:
  "lines \<noteq> [] \<Longrightarrow> hd lines ''Species'' = None \<Longrightarrow>
   scan_lines short q lines st = Inl (KeyError ''Species'')"
  by (cases lines; cases st) simp_all

lemma csv_loop_step_ok:
  assumes "file_ok env q f"
  shows "csv_loop env q (f # fs) rs = csv_loop env q fs (rs @ file_records q f (rows_of env f))"
proof -
  obtain rows where o: "open_read env f = Inr rows" and ok: "list_all (line_ok q) (DictReader rows)"
    using assms by (cases "open_read env f") (simp_all add: file_ok_def)
  show ?thesis
    using o scan_lines_ok [OF ok, of "shorten_name f" 0 rs]
    by (simp add: file_records_def rows_of_def species_lines_def)
qed

lemma csv_loop_step_fail:
  assumes "\<not> file_ok env q f"
  shows "\<exists>e. csv_loop env q (f # fs) rs = Inl e"
proof (cases "open_read env f")
  case (Inl e)
  then show ?thesis by simp
next
  case (Inr rows)
  then have "\<not> list_all (line_ok q) (DictReader rows)"
    using assms by (simp add: file_ok_def)
  from scan_lines_fail [OF this, of "shorten_name f" 0 rs] Inr show ?thesis by auto
qed

lemma csv_loop_ok:
  "list_all (file_ok env q) fs \<Longrightarrow> csv_loop env q fs rs = Inr (rs @ aggregate env q fs)"
proof (induction fs arbitrary: rs)
  case Nil
  then show ?case by (simp add: aggregate_def)
next
  case (Cons f fs)
  then show ?case by (simp add: csv_loop_step_ok aggregate_def del: csv_loop.simps)
qed

lemma csv_loop_fail:
  "\<not> list_all (file_ok env q) fs \<Longrightarrow> \<exists>e. csv_loop env q fs rs = Inl e"
proof (induction fs arbitrary: rs)
  case Nil
  then show ?case by simp
next
  case (Cons f fs)
  show ?case
  proof (cases "file_ok env q f")
    case True
    then have "\<not> list_all (file_ok env q) fs" using Cons.prems by simp
    from Cons.IH [OF this] show ?thesis by (simp add: csv_loop_step_ok [OF True] del: csv_loop.simps)
  next
    case False
    then show ?thesis by (rule csv_loop_step_fail)
  qed
qed

lemma create_species_dict_iff:
  "create_species_dict env fs q = Inr res \<longleftrightarrow>
     list_all (file_ok env q) fs \<and> res = aggregate env q fs"
proof (cases "list_all (file_ok env q) fs")
  case True
  then show ?thesis using csv_loop_ok [OF True, of "[]"] by (auto simp: create_species_dict_def)
next
  case False
  then show ?thesis using csv_loop_fail [OF False, of "[]"] by (auto simp: create_species_dict_def)
qed

lemma csv_loop_append:
  "csv_loop env q (fs @ gs) rs =
     (case csv_loop env q fs rs of Inl e \<Rightarrow> Inl e | Inr rs' \<Rightarrow> csv_loop env q gs rs')"
proof (induction fs arbitrary: rs)
  case Nil
  show ?case by simp
next
  case (Cons f fs)
  show ?case
  proof (cases "open_read env f")
    case (Inl e)
    then show ?thesis by simp
  next
    case (Inr rows)
    show ?thesis
    proof (cases "scan_lines (shorten_name f) q (DictReader rows) (0, rs)")
      case (Inl e)
      then show ?thesis using Inr by simp
    next
      case (Inr st)
      obtain c rs' where st: "st = (c, rs')" by (cases st)
      show ?thesis
        using \<open>open_read env f = Inr rows\<close> Inr st Cons.IH by simp
    qed
  qed
qed

lemma csv_loop_cong:
  "\<forall>F \<in> set fs. open_read env1 F = open_read env2 F \<Longrightarrow>
   csv_loop env1 q fs rs = csv_loop env2 q fs rs"
proof (induction fs arbitrary: rs)
  case Nil
  show ?case by simp
next
  case (Cons f fs)
  from Cons.prems have same: "open_read env1 f = open_read env2 f"
    and rest: "\<forall>F \<in> set fs. open_read env1 F = open_read env2 F" by simp_all
  show ?case
  proof (cases "open_read env2 f")
    case (Inl e)
    then show ?thesis using same by simp
  next
    case (Inr rows)
    show ?thesis
    proof (cases "scan_lines (shorten_name f) q (DictReader rows) (0, rs)")
      case (Inl e)
      then show ?thesis using Inr same by simp
    next
      case (Inr st)
      obtain c rs' where st: "st = (c, rs')" by (cases st)
      show ?thesis
        using \<open>open_read env2 f = Inr rows\<close> same Inr st Cons.IH [OF rest] by simp
    qed
  qed
qed

section \<open>Properties of \<open>csv.DictReader\<close>\<close>

lemma dom_fold_zip:
  "dom (fold (\<lambda>(k, v) d. d(k \<mapsto> PyStr v)) kvs m) = dom m \<union> fst ` set kvs"
  by (induction kvs arbitrary: m) auto

lemma dom_fold_none:
  "dom (fold (\<lambda>key d. d(key \<mapsto> PyNone)) ks m) = dom m \<union> set ks"
  by (induction ks arbitrary: m) auto

lemma fst_set_zip: "fst ` set (zip xs ys) = set (take (length ys) xs)"
proof (induction xs arbitrary: ys)
  case Nil
  show ?case by simp
next
  case (Cons x xs)
  show ?case by (cases ys) (simp_all add: Cons.IH)
qed

lemma dom_DictReader_row: "dom (DictReader_row fieldnames row) = set fieldnames"
proof (cases "length row < length fieldnames")
  case True
  have "dom (DictReader_row fieldnames row) =
          set (take (length row) fieldnames) \<union> set (drop (length row) fieldnames)"
    unfolding DictReader_row_def Let_def using True
    by (simp only: if_True dom_fold_none dom_fold_zip fst_set_zip dom_empty Un_empty_left)
  also have "\<dots> = set (take (length row) fieldnames @ drop (length row) fieldnames)"
    by (simp only: set_append)
  also have "\<dots> = set fieldnames"
    by (simp only: append_take_drop_id)
  finally show ?thesis .
next
  case False
  then have all: "take (length row) fieldnames = fieldnames" by simp
  have "dom (DictReader_row fieldnames row) = set (take (length row) fieldnames)"
    unfolding DictReader_row_def Let_def using False
    by (simp only: if_False dom_fold_zip fst_set_zip dom_empty Un_empty_left)
  then show ?thesis by (simp only: all)
qed

lemma DictReader_row_key:
  "DictReader_row fieldnames row key = None \<longleftrightarrow> key \<notin> set fieldnames"
  using dom_DictReader_row [of fieldnames row] domIff [of key "DictReader_row fieldnames row"]
  by blast

lemma DictReader_lines:
  "line \<in> set (DictReader (hdr # rest)) \<Longrightarrow> \<exists>row. line = DictReader_row hdr row"
  by (auto simp: DictReader_def)

lemma header_file_ok:
  assumes "open_read env F = Inr (hdr # rest)" "''Species'' \<in> set hdr" "''Reads'' \<in> set hdr"
  shows "file_ok env q F"
proof -
  have "line_ok q line" if "line \<in> set (DictReader (hdr # rest))" for line
  proof -
    from that obtain row where l: "line = DictReader_row hdr row"
      using DictReader_lines by blast
    have s: "line ''Species'' \<noteq> None" and r: "line ''Reads'' \<noteq> None"
      using assms(2,3) by (simp_all add: l DictReader_row_key)
    from s obtain sp where "line ''Species'' = Some sp" by (cases "line ''Species''") simp_all
    then show ?thesis using r by (simp add: line_ok_def)
  qed
  then show ?thesis using assms(1) by (simp add: file_ok_def list_all_iff)
qed

lemma no_species_not_ok:
  assumes "open_read env F = Inr (hdr # rest)" "''Species'' \<notin> set hdr" "row \<in> set rest" "row \<noteq> []"
  shows "\<not> file_ok env q F"
    and "scan_lines short q (DictReader (hdr # rest)) st = Inl (KeyError ''Species'')"
proof -
  let ?rows = "filter (\<lambda>row. row \<noteq> []) rest"
  have ne: "?rows \<noteq> []" using assms(3,4) by (auto simp: filter_empty_conv)
  then obtain r rs where rr: "?rows = r # rs" by (cases ?rows) simp_all
  have lines: "DictReader (hdr # rest) = DictReader_row hdr r # map (DictReader_row hdr) rs"
    by (simp add: DictReader_def rr)
  have none: "DictReader_row hdr r ''Species'' = None"
    using assms(2) by (simp add: DictReader_row_key)
  show "scan_lines short q (DictReader (hdr # rest)) st = Inl (KeyError ''Species'')"
    using none by (simp add: lines scan_lines_no_species)
  have "\<not> line_ok q (DictReader_row hdr r)" using none by (simp add: line_ok_def)
  then show "\<not> file_ok env q F" using assms(1) by (simp add: file_ok_def lines)
qed

section \<open>Properties of the records of a file\<close>

lemma length_file_records:
  "length (file_records q F rows) = max 1 (length (species_lines q rows))"
  by (cases "species_lines q rows") (simp_all add: file_records_def)

lemma filename_file_records:
  "map filename (file_records q F rows) =
     replicate (max 1 (length (species_lines q rows))) (shorten_name F)"
proof (cases "species_lines q rows = []")
  case True
  then show ?thesis by (simp add: file_records_def)
next
  case False
  then have "max 1 (length (species_lines q rows)) = length (species_lines q rows)"
    by (cases "species_lines q rows") simp_all
  then show ?thesis using False
    by (simp add: file_records_def comp_def map_replicate_const)
qed

lemma aggregate_append:
  "aggregate env q (fs @ gs) = aggregate env q fs @ aggregate env q gs"
  by (simp add: aggregate_def)

lemma aggregate_Cons:
  "aggregate env q (F # fs) = file_records q F (rows_of env F) @ aggregate env q fs"
  by (simp add: aggregate_def)

lemma length_aggregate:
  "length (aggregate env q fs) =
     sum_list (map (\<lambda>F. max 1 (length (species_lines q (rows_of env F)))) fs)"
  by (induction fs) (simp_all add: aggregate_def length_file_records)





lemma headers_return:
  assumes "\<forall>F \<in> set fs. \<exists>hdr rest. open_read env F = Inr (hdr # rest) \<and>
      ''Species'' \<in> set hdr \<and> ''Reads'' \<in> set hdr"
  shows "create_species_dict env fs q = Inr (aggregate env q fs)"
proof -
  have "file_ok env q F" if "F \<in> set fs" for F
    using assms that header_file_ok [of env F] by blast
  then have "list_all (file_ok env q) fs" by (simp add: list_all_iff)
  then show ?thesis by (simp add: create_species_dict_iff)
qed

lemma zero_record_position:
  assumes "species_lines q (rows_of env F) = []"
  shows "aggregate env q (pre @ F # post) =
     aggregate env q pre @ [\<lparr>filename = shorten_name F, reads = PyInt 0\<rparr>] @ aggregate env q post"
  using assms by (simp add: aggregate_append aggregate_Cons file_records_def)

section \<open>The claims\<close>

subsection \<open>Display names\<close>

text \<open>
  C6 (amended). The display name is the part of the filename before the first occurrence
  of \<open>_final_results.csv\<close>: for \<open>f = pre @ ''_final_results.csv'' @ post\<close> with no
  occurrence starting inside \<open>pre\<close> it is \<open>pre\<close>. So for a filename that ends with
  \<open>_final_results.csv\<close> and has no earlier occurrence of it, the display name is the
  filename with that suffix removed.
\<close>

theorem shorten_name_first_occurrence:
  "(f = pre @ ''_final_results.csv'' @ post \<and>
      (\<forall>i<length pre. \<not> prefix ''_final_results.csv'' (drop i f))
      \<longrightarrow> shorten_name f = pre) \<and>
   (suffix ''_final_results.csv'' f \<and>
      (\<forall>i<length f - length ''_final_results.csv''.
          \<not> prefix ''_final_results.csv'' (drop i f))
      \<longrightarrow> shorten_name f = remove_suffix ''_final_results.csv'' f)"
proof (intro conjI impI)
  assume "f = pre @ ''_final_results.csv'' @ post \<and>
    (\<forall>i<length pre. \<not> prefix ''_final_results.csv'' (drop i f))"
  then show "shorten_name f = pre"
    using shorten_name_before_first [of f pre post] by blast
next
  assume a: "suffix ''_final_results.csv'' f \<and>
    (\<forall>i<length f - length ''_final_results.csv''. \<not> prefix ''_final_results.csv'' (drop i f))"
  then obtain p where f: "f = p @ ''_final_results.csv''"
    by (auto simp: suffix_def)
  have "\<forall>i<length p. \<not> prefix ''_final_results.csv'' (drop i f)"
    using a f by simp
  then have "shorten_name f = p"
    using shorten_name_before_first [of f p "[]"] f by simp
  then show "shorten_name f = remove_suffix ''_final_results.csv'' f"
    using f a by (simp add: remove_suffix_def)
qed

theorem shorten_name_first_occurrence_witness:
  "shorten_name ''A_final_results.csv'' = ''A'' \<and>
   shorten_name ''A_final_results.csv'' = remove_suffix ''_final_results.csv'' ''A_final_results.csv'' \<and>
   shorten_name ''a_final_results.csv_final_results.csv'' = ''a''"
proof -
  have h1: "''A_final_results.csv'' = ''A'' @ ''_final_results.csv'' @ [] \<and>
      (\<forall>i<length ''A''. \<not> prefix ''_final_results.csv'' (drop i ''A_final_results.csv''))"
    by simp
  have h2: "suffix ''_final_results.csv'' ''A_final_results.csv'' \<and>
      (\<forall>i<length ''A_final_results.csv'' - length ''_final_results.csv''.
          \<not> prefix ''_final_results.csv'' (drop i ''A_final_results.csv''))"
    by (simp add: suffix_def)
  have h3: "''a_final_results.csv_final_results.csv'' =
        ''a'' @ ''_final_results.csv'' @ ''_final_results.csv'' \<and>
      (\<forall>i<length ''a''.
          \<not> prefix ''_final_results.csv'' (drop i ''a_final_results.csv_final_results.csv''))"
    by simp
  note t = shorten_name_first_occurrence
  from t [of "''A_final_results.csv''" "''A''" "[]"] h1
  have c1: "shorten_name ''A_final_results.csv'' = ''A''" by blast
  from t [of "''A_final_results.csv''"] h2
  have c2: "shorten_name ''A_final_results.csv'' =
      remove_suffix ''_final_results.csv'' ''A_final_results.csv''" by blast
  from t [of "''a_final_results.csv_final_results.csv''" "''a''" "''_final_results.csv''"] h3
  have c3: "shorten_name ''a_final_results.csv_final_results.csv'' = ''a''" by blast
  from c1 c2 c3 show ?thesis by blast
qed

text \<open>
  C6 as stated fails: \<open>a_final_results.csv_final_results.csv\<close> is a name the discovery
  pattern matches; with the suffix removed it is \<open>a_final_results.csv\<close>, but its display
  name is \<open>a\<close>.
\<close>

theorem shorten_name_suffix_counterexample:
  "fnmatch ''a_final_results.csv_final_results.csv'' ''*final_results.csv'' \<and>
   remove_suffix ''_final_results.csv'' ''a_final_results.csv_final_results.csv''
     = ''a_final_results.csv'' \<and>
   shorten_name ''a_final_results.csv_final_results.csv'' = ''a'' \<and>
   shorten_name ''a_final_results.csv_final_results.csv''
     \<noteq> remove_suffix ''_final_results.csv'' ''a_final_results.csv_final_results.csv''"
  by code_simp

text \<open>
  C9. A filename in which \<open>_final_results.csv\<close> does not occur is its own display name,
  extension included.
\<close>

theorem shorten_name_without_separator:
  "\<not> sublist ''_final_results.csv'' f \<Longrightarrow> shorten_name f = f"
  by (simp add: shorten_name_def str_split_def str_split_from_absent)

theorem shorten_name_without_separator_witness:
  "fnmatch ''Afinal_results.csv'' ''*final_results.csv'' \<and>
   \<not> sublist ''_final_results.csv'' ''Afinal_results.csv'' \<and>
   shorten_name ''Afinal_results.csv'' = ''Afinal_results.csv''"
proof -
  have m: "fnmatch ''Afinal_results.csv'' ''*final_results.csv''" by code_simp
  have h: "\<not> sublist ''_final_results.csv'' ''Afinal_results.csv''" by code_simp
  from shorten_name_without_separator [OF h] m h show ?thesis by blast
qed


subsection \<open>File discovery\<close>

text \<open>
  C8 (amended). Where \<open>normcase\<close> leaves the pattern as it is (as it does on POSIX and on
  Windows), the discoverer returns, in the order of the listing, exactly the names of the
  directory's own entries (nothing from inside a subdirectory) that do not start with a
  dot and that end with \<open>final_results.csv\<close> after \<open>normcase\<close>; on POSIX, where \<open>normcase\<close>
  is the identity, the comparison is case-sensitive. When no name qualifies the result
  is the empty list, not an error.
\<close>

theorem glob_final_results:
  "(normcase env ''*final_results.csv'' = ''*final_results.csv'' \<longrightarrow>
      glob env ''*final_results.csv'' =
        filter (\<lambda>n. \<not> ishidden n \<and> suffix ''final_results.csv'' (normcase env n))
          (map entry_name (scandir env))) \<and>
   ((\<forall>s. normcase env s = s) \<longrightarrow>
      glob env ''*final_results.csv'' =
        filter (\<lambda>n. \<not> ishidden n \<and> suffix ''final_results.csv'' n)
          (map entry_name (scandir env))) \<and>
   ((\<forall>s. normcase env s = s) \<and>
    (\<forall>n \<in> set (map entry_name (scandir env)).
        ishidden n \<or> \<not> suffix ''final_results.csv'' n) \<longrightarrow>
      glob env ''*final_results.csv'' = [])"
proof (intro conjI impI)
  assume "normcase env ''*final_results.csv'' = ''*final_results.csv''"
  then show "glob env ''*final_results.csv'' =
      filter (\<lambda>n. \<not> ishidden n \<and> suffix ''final_results.csv'' (normcase env n))
        (map entry_name (scandir env))"
    by (rule glob_filter)
next
  assume id: "\<forall>s. normcase env s = s"
  then have "normcase env ''*final_results.csv'' = ''*final_results.csv''" by simp
  from glob_filter [OF this] id
  show "glob env ''*final_results.csv'' =
      filter (\<lambda>n. \<not> ishidden n \<and> suffix ''final_results.csv'' n)
        (map entry_name (scandir env))"
    by simp
next
  assume a: "(\<forall>s. normcase env s = s) \<and>
    (\<forall>n \<in> set (map entry_name (scandir env)). ishidden n \<or> \<not> suffix ''final_results.csv'' n)"
  then have "normcase env ''*final_results.csv'' = ''*final_results.csv''" by simp
  from glob_filter [OF this] a
  show "glob env ''*final_results.csv'' = []"
    by (simp add: filter_empty_conv)
qed

theorem glob_final_results_witness:
  "glob env_mixed ''*final_results.csv'' = [''A_final_results.csv'', ''B_final_results.csv''] \<and>
   map entry_name (scandir env_mixed) =
     [''.old_final_results.csv'', ''A_final_results.csv'', ''raw'', ''notes.txt'',
      ''D_FINAL_RESULTS.CSV'', ''B_final_results.csv''] \<and>
   glob (env_mixed\<lparr>scandir := [FileEntry ''notes.txt'', FileEntry ''.old_final_results.csv'']\<rparr>)
     ''*final_results.csv'' = []"
proof -
  let ?e = "env_mixed\<lparr>scandir := [FileEntry ''notes.txt'', FileEntry ''.old_final_results.csv'']\<rparr>"
  have id: "\<forall>s. normcase env_mixed s = s" by (simp add: env_mixed_def)
  have id': "\<forall>s. normcase ?e s = s" by (simp add: env_mixed_def)
  have names: "map entry_name (scandir env_mixed) =
     [''.old_final_results.csv'', ''A_final_results.csv'', ''raw'', ''notes.txt'',
      ''D_FINAL_RESULTS.CSV'', ''B_final_results.csv'']"
    by (simp add: env_mixed_def)
  have f: "filter (\<lambda>n. \<not> ishidden n \<and> suffix ''final_results.csv'' n)
      (map entry_name (scandir env_mixed)) = [''A_final_results.csv'', ''B_final_results.csv'']"
    by code_simp
  have none: "\<forall>n \<in> set (map entry_name (scandir ?e)).
      ishidden n \<or> \<not> suffix ''final_results.csv'' n"
    by (simp add: ishidden_def suffix_def)
  from glob_final_results [of env_mixed] id f
  have c1: "glob env_mixed ''*final_results.csv'' =
      [''A_final_results.csv'', ''B_final_results.csv'']" by simp
  from glob_final_results [of ?e] id' none
  have c2: "glob ?e ''*final_results.csv'' = []" by blast
  from c1 names c2 show ?thesis by blast
qed

text \<open>
  C8 as stated fails: \<open>.old_final_results.csv\<close> is in the directory and ends with
  \<open>final_results.csv\<close>, and the discoverer does not return it.
\<close>

theorem glob_hidden_counterexample:
  "''.old_final_results.csv'' \<in> set (map entry_name (scandir env_mixed)) \<and>
   suffix ''final_results.csv'' ''.old_final_results.csv'' \<and>
   ''.old_final_results.csv'' \<notin> set (glob env_mixed ''*final_results.csv'') \<and>
   glob env_mixed ''*final_results.csv'' \<noteq>
     filter (suffix ''final_results.csv'') (map entry_name (scandir env_mixed))"
  by code_simp

subsection \<open>Files without data rows, and files that fail\<close>



text \<open>
  C5 (amended). If a file's header lacks \<open>Species\<close> and the file has at least one data
  row that is not blank, the aggregation fails with the uncaught \<open>KeyError\<close> for
  \<open>Species\<close>; if a file cannot be opened, it fails with the uncaught error of \<open>open\<close>. In
  the theorem the files before \<open>F\<close> have been processed without error; whatever the
  position of such a file in the list, the aggregation returns no result.
\<close>

theorem create_species_dict_fails:
  "(create_species_dict env pre q = Inr r \<and> open_read env F = Inl e \<longrightarrow>
      create_species_dict env (pre @ F # post) q = Inl e) \<and>
   (create_species_dict env pre q = Inr r \<and> open_read env F = Inr (hdr # rest) \<and>
    ''Species'' \<notin> set hdr \<and> list_ex (\<lambda>row. row \<noteq> []) rest \<longrightarrow>
      create_species_dict env (pre @ F # post) q = Inl (KeyError ''Species'')) \<and>
   (F \<in> set csv_list \<and>
    (open_read env F = Inl e \<or>
     open_read env F = Inr (hdr # rest) \<and> ''Species'' \<notin> set hdr \<and>
     list_ex (\<lambda>row. row \<noteq> []) rest) \<longrightarrow>
      (\<exists>e'. create_species_dict env csv_list q = Inl e'))"
proof (intro conjI impI)
  assume "create_species_dict env pre q = Inr r \<and> open_read env F = Inl e"
  then show "create_species_dict env (pre @ F # post) q = Inl e"
    by (simp add: create_species_dict_def csv_loop_append)
next
  assume a: "create_species_dict env pre q = Inr r \<and> open_read env F = Inr (hdr # rest) \<and>
    ''Species'' \<notin> set hdr \<and> list_ex (\<lambda>row. row \<noteq> []) rest"
  then obtain row where row: "row \<in> set rest" "row \<noteq> []"
    by (auto simp: list_ex_iff)
  have "scan_lines (shorten_name F) q (DictReader (hdr # rest)) (0, r) = Inl (KeyError ''Species'')"
    using no_species_not_ok(2) [of env F hdr rest row] a row by blast
  then show "create_species_dict env (pre @ F # post) q = Inl (KeyError ''Species'')"
    using a by (simp add: create_species_dict_def csv_loop_append)
next
  assume a: "F \<in> set csv_list \<and>
    (open_read env F = Inl e \<or>
     open_read env F = Inr (hdr # rest) \<and> ''Species'' \<notin> set hdr \<and>
     list_ex (\<lambda>row. row \<noteq> []) rest)"
  have "\<not> file_ok env q F"
  proof (cases "open_read env F = Inl e")
    case True
    then show ?thesis by (simp add: file_ok_def)
  next
    case False
    with a have b: "open_read env F = Inr (hdr # rest)" "''Species'' \<notin> set hdr"
      "list_ex (\<lambda>row. row \<noteq> []) rest" by blast+
    then obtain row where "row \<in> set rest" "row \<noteq> []" by (auto simp: list_ex_iff)
    with b show ?thesis using no_species_not_ok(1) [of env F hdr rest row] by blast
  qed
  with a have "\<not> list_all (file_ok env q) csv_list" by (auto simp: list_all_iff)
  from csv_loop_fail [OF this]
  show "\<exists>e'. create_species_dict env csv_list q = Inl e'"
    by (simp add: create_species_dict_def)
qed

theorem create_species_dict_fails_witness:
  "create_species_dict env_broken [''B_final_results.csv'', ''locked_final_results.csv'',
      ''empty_final_results.csv''] ''SpeciesY'' = Inl (OSError ''locked_final_results.csv'') \<and>
   create_species_dict env_broken [''B_final_results.csv'', ''taxa_final_results.csv'']
      ''SpeciesY'' = Inl (KeyError ''Species'') \<and>
   (\<exists>e'. create_species_dict env_broken (glob env_broken ''*final_results.csv'') ''SpeciesY''
      = Inl e')"
proof -
  have p: "create_species_dict env_broken [''B_final_results.csv''] ''SpeciesY'' =
      Inr [\<lparr>filename = ''B'', reads = PyStr ''5''\<rparr>]"
    by code_simp
  have l: "open_read env_broken ''locked_final_results.csv'' =
      Inl (OSError ''locked_final_results.csv'')"
    by (simp add: env_broken_def)
  have t: "open_read env_broken ''taxa_final_results.csv'' =
      Inr ([''Taxon'', ''Reads''] # [[''SpeciesX'', ''4'']])"
    by (simp add: env_broken_def)
  have ns: "''Species'' \<notin> set [''Taxon'', ''Reads'']" by simp
  have ex: "list_ex (\<lambda>row. row \<noteq> []) [[''SpeciesX'', ''4'']]" by simp
  have g: "''taxa_final_results.csv'' \<in> set (glob env_broken ''*final_results.csv'')"
    by code_simp
  note th = create_species_dict_fails
  from th [of env_broken "[''B_final_results.csv'']" "''SpeciesY''" _
      "''locked_final_results.csv''" _ "[''empty_final_results.csv'']"] p l
  have c1: "create_species_dict env_broken [''B_final_results.csv'',
      ''locked_final_results.csv'', ''empty_final_results.csv''] ''SpeciesY'' =
      Inl (OSError ''locked_final_results.csv'')" by simp
  from th [of env_broken "[''B_final_results.csv'']" "''SpeciesY''" _
      "''taxa_final_results.csv''" _ "[]" "[''Taxon'', ''Reads'']" "[[''SpeciesX'', ''4'']]"]
    p t ns ex
  have c2: "create_species_dict env_broken [''B_final_results.csv'',
      ''taxa_final_results.csv''] ''SpeciesY'' = Inl (KeyError ''Species'')" by simp
  from th [of env_broken _ "''SpeciesY''" _ "''taxa_final_results.csv''" _ _
      "[''Taxon'', ''Reads'']" "[[''SpeciesX'', ''4'']]" "glob env_broken ''*final_results.csv''"]
    t ns ex g
  have c3: "\<exists>e'. create_species_dict env_broken (glob env_broken ''*final_results.csv'')
      ''SpeciesY'' = Inl e'" by blast
  from c1 c2 c3 show ?thesis by blast
qed

text \<open>
  C5 as stated fails: \<open>empty_final_results.csv\<close> lacks the \<open>Species\<close> column, and the
  aggregation of it returns a record instead of failing.
\<close>

theorem missing_column_counterexample:
  "open_read env_broken ''empty_final_results.csv'' = Inr [[''Taxon'', ''Reads'']] \<and>
   ''Species'' \<notin> set [''Taxon'', ''Reads''] \<and>
   create_species_dict env_broken [''empty_final_results.csv''] ''SpeciesX'' =
     Inr [\<lparr>filename = ''empty'', reads = PyInt 0\<rparr>] \<and>
   create_species_dict env_broken [''empty_final_results.csv''] ''SpeciesX''
     \<noteq> Inl (KeyError ''Species'')"
proof -
  have "create_species_dict env_broken [''empty_final_results.csv''] ''SpeciesX'' =
     Inr [\<lparr>filename = ''empty'', reads = PyInt 0\<rparr>]"
    by code_simp
  then show ?thesis by (simp add: env_broken_def)
qed


subsection \<open>The records of the aggregation\<close>

text \<open>
  C1 (amended). When the aggregation returns, its result is, file after file in the order
  of the list, one record for each row of the file whose \<open>Species\<close> field equals the query
  exactly, in the order of the rows and with the value of that row's \<open>Reads\<close> field (not a
  count), or a single record with \<open>reads = 0\<close> for a file without such a row. It returns
  whenever every file opens and has the columns \<open>Species\<close> and \<open>Reads\<close> in its header.
\<close>

theorem create_species_dict_records:
  "(create_species_dict env csv_list q = Inr res \<longrightarrow>
      res = concat (map (\<lambda>F. file_records q F (rows_of env F)) csv_list) \<and>
      (\<forall>F \<in> set csv_list. \<forall>line \<in> set (species_lines q (rows_of env F)).
          line ''Reads'' \<noteq> None)) \<and>
   ((\<forall>F \<in> set csv_list. \<exists>hdr rest. open_read env F = Inr (hdr # rest) \<and>
        ''Species'' \<in> set hdr \<and> ''Reads'' \<in> set hdr) \<longrightarrow>
      create_species_dict env csv_list q =
        Inr (concat (map (\<lambda>F. file_records q F (rows_of env F)) csv_list)))"
proof (intro conjI impI)
  assume r: "create_species_dict env csv_list q = Inr res"
  then show "res = concat (map (\<lambda>F. file_records q F (rows_of env F)) csv_list)"
    by (simp add: create_species_dict_iff aggregate_def)
  from r have ok: "list_all (file_ok env q) csv_list"
    by (simp add: create_species_dict_iff)
  show "\<forall>F \<in> set csv_list. \<forall>line \<in> set (species_lines q (rows_of env F)).
      line ''Reads'' \<noteq> None"
  proof (intro ballI)
    fix F line
    assume F: "F \<in> set csv_list" and l: "line \<in> set (species_lines q (rows_of env F))"
    from ok F have fo: "file_ok env q F" by (simp add: list_all_iff)
    then obtain rows where o: "open_read env F = Inr rows"
      and all: "list_all (line_ok q) (DictReader rows)"
      by (cases "open_read env F") (simp_all add: file_ok_def)
    from l o have m: "line \<in> set (DictReader rows)" "line ''Species'' = Some (PyStr q)"
      by (simp_all add: species_lines_def rows_of_def)
    from all m(1) have "line_ok q line" by (simp add: list_all_iff)
    with m(2) show "line ''Reads'' \<noteq> None" by (simp add: line_ok_def)
  qed
next
  assume h: "\<forall>F \<in> set csv_list. \<exists>hdr rest. open_read env F = Inr (hdr # rest) \<and>
      ''Species'' \<in> set hdr \<and> ''Reads'' \<in> set hdr"
  from headers_return [OF this, of q]
  show "create_species_dict env csv_list q =
      Inr (concat (map (\<lambda>F. file_records q F (rows_of env F)) csv_list))"
    by (simp add: aggregate_def)
qed

theorem create_species_dict_records_witness:
  "create_species_dict env_scenario [''A_final_results.csv'', ''B_final_results.csv''] ''SpeciesX'' =
     Inr [\<lparr>filename = ''A'', reads = PyStr ''10''\<rparr>, \<lparr>filename = ''A'', reads = PyStr ''7''\<rparr>,
          \<lparr>filename = ''B'', reads = PyInt 0\<rparr>] \<and>
   file_records ''SpeciesX'' ''A_final_results.csv'' rows_A =
     [\<lparr>filename = ''A'', reads = PyStr ''10''\<rparr>, \<lparr>filename = ''A'', reads = PyStr ''7''\<rparr>] \<and>
   file_records ''SpeciesX'' ''B_final_results.csv'' rows_B = [\<lparr>filename = ''B'', reads = PyInt 0\<rparr>]"
proof -
  let ?l = "[''A_final_results.csv'', ''B_final_results.csv'']"
  have h: "\<forall>F \<in> set ?l. \<exists>hdr rest. open_read env_scenario F = Inr (hdr # rest) \<and>
      ''Species'' \<in> set hdr \<and> ''Reads'' \<in> set hdr"
    by (simp add: env_scenario_def rows_A_def rows_B_def)
  have a: "file_records ''SpeciesX'' ''A_final_results.csv'' rows_A =
     [\<lparr>filename = ''A'', reads = PyStr ''10''\<rparr>, \<lparr>filename = ''A'', reads = PyStr ''7''\<rparr>]"
    by code_simp
  have b: "file_records ''SpeciesX'' ''B_final_results.csv'' rows_B =
     [\<lparr>filename = ''B'', reads = PyInt 0\<rparr>]"
    by code_simp
  have ra: "rows_of env_scenario ''A_final_results.csv'' = rows_A"
    and rb: "rows_of env_scenario ''B_final_results.csv'' = rows_B"
    by (simp_all add: rows_of_def env_scenario_def)
  from create_species_dict_records [of env_scenario ?l "''SpeciesX''"] h
  have "create_species_dict env_scenario ?l ''SpeciesX'' =
      Inr (concat (map (\<lambda>F. file_records ''SpeciesX'' F (rows_of env_scenario F)) ?l))"
    by blast
  then have "create_species_dict env_scenario ?l ''SpeciesX'' =
     Inr [\<lparr>filename = ''A'', reads = PyStr ''10''\<rparr>, \<lparr>filename = ''A'', reads = PyStr ''7''\<rparr>,
          \<lparr>filename = ''B'', reads = PyInt 0\<rparr>]"
    by (simp add: ra rb a b)
  with a b show ?thesis by blast
qed

text \<open>
  C1 as stated fails: two rows of \<open>A_final_results.csv\<close> match \<open>SpeciesX\<close>, and the
  aggregation of that file gives two records, with the reads \<open>10\<close> and \<open>7\<close> of those rows,
  not one record with reads = 2.
\<close>

theorem occurrence_count_counterexample:
  "length (species_lines ''SpeciesX'' rows_A) = 2 \<and>
   create_species_dict env_scenario [''A_final_results.csv''] ''SpeciesX'' =
     Inr [\<lparr>filename = ''A'', reads = PyStr ''10''\<rparr>, \<lparr>filename = ''A'', reads = PyStr ''7''\<rparr>] \<and>
   create_species_dict env_scenario [''A_final_results.csv''] ''SpeciesX'' \<noteq>
     Inr [\<lparr>filename = ''A'', reads = PyInt 2\<rparr>]"
  by code_simp

text \<open>
  C4. When no row of a file \<open>F\<close> of the list has a \<open>Species\<close> field equal to the query, a
  result of the aggregation holds, between the records of the files before \<open>F\<close> and those
  of the files after it, exactly the record of \<open>F\<close> with \<open>reads = 0\<close>, and every file of
  the list has a record under its display name. The aggregation does return that result
  when every file of the list opens and has the columns \<open>Species\<close> and \<open>Reads\<close>.
\<close>

theorem absent_species_zero_record:
  "(create_species_dict env (pre @ F # post) q = Inr res \<and>
    species_lines q (rows_of env F) = [] \<longrightarrow>
      res = aggregate env q pre @ [\<lparr>filename = shorten_name F, reads = PyInt 0\<rparr>]
              @ aggregate env q post \<and>
      (\<forall>G \<in> set (pre @ F # post). \<exists>r \<in> set res. filename r = shorten_name G)) \<and>
   ((\<forall>G \<in> set (pre @ F # post). \<exists>hdr rest. open_read env G = Inr (hdr # rest) \<and>
        ''Species'' \<in> set hdr \<and> ''Reads'' \<in> set hdr) \<and>
    species_lines q (rows_of env F) = [] \<longrightarrow>
      create_species_dict env (pre @ F # post) q =
        Inr (aggregate env q pre @ [\<lparr>filename = shorten_name F, reads = PyInt 0\<rparr>]
               @ aggregate env q post))"
proof (intro conjI impI)
  assume a: "create_species_dict env (pre @ F # post) q = Inr res \<and>
    species_lines q (rows_of env F) = []"
  then have res: "res = aggregate env q (pre @ F # post)"
    by (simp add: create_species_dict_iff)
  from a show "res = aggregate env q pre @ [\<lparr>filename = shorten_name F, reads = PyInt 0\<rparr>]
      @ aggregate env q post"
    by (simp only: res zero_record_position)
  show "\<forall>G \<in> set (pre @ F # post). \<exists>r \<in> set res. filename r = shorten_name G"
  proof
    fix G
    assume G: "G \<in> set (pre @ F # post)"
    have "shorten_name G \<in> set (map filename (file_records q G (rows_of env G)))"
      by (simp add: filename_file_records)
    then obtain x where x: "x \<in> set (file_records q G (rows_of env G))"
      "filename x = shorten_name G" by auto
    from x(1) G have "x \<in> set res"
      unfolding res aggregate_def by (simp only: set_concat set_map) blast
    with x(2) show "\<exists>r \<in> set res. filename r = shorten_name G" by blast
  qed
next
  assume a: "(\<forall>G \<in> set (pre @ F # post). \<exists>hdr rest. open_read env G = Inr (hdr # rest) \<and>
        ''Species'' \<in> set hdr \<and> ''Reads'' \<in> set hdr) \<and>
    species_lines q (rows_of env F) = []"
  then have "create_species_dict env (pre @ F # post) q = Inr (aggregate env q (pre @ F # post))"
    using headers_return [of "pre @ F # post" env q] by blast
  with a show "create_species_dict env (pre @ F # post) q =
      Inr (aggregate env q pre @ [\<lparr>filename = shorten_name F, reads = PyInt 0\<rparr>]
             @ aggregate env q post)"
    by (simp only: zero_record_position)
qed

theorem absent_species_zero_record_witness:
  "species_lines ''SpeciesX'' (rows_of env_scenario ''B_final_results.csv'') = [] \<and>
   create_species_dict env_scenario [''A_final_results.csv'', ''B_final_results.csv''] ''SpeciesX'' =
     Inr [\<lparr>filename = ''A'', reads = PyStr ''10''\<rparr>, \<lparr>filename = ''A'', reads = PyStr ''7''\<rparr>,
          \<lparr>filename = ''B'', reads = PyInt 0\<rparr>] \<and>
   create_species_dict env_scenario [''B_final_results.csv'', ''A_final_results.csv''] ''SpeciesX'' =
     Inr [\<lparr>filename = ''B'', reads = PyInt 0\<rparr>, \<lparr>filename = ''A'', reads = PyStr ''10''\<rparr>,
          \<lparr>filename = ''A'', reads = PyStr ''7''\<rparr>]"
proof -
  let ?A = "''A_final_results.csv''" and ?B = "''B_final_results.csv''"
  have n: "species_lines ''SpeciesX'' (rows_of env_scenario ?B) = []"
    by code_simp
  have r: "create_species_dict env_scenario ([?A] @ ?B # []) ''SpeciesX'' =
     Inr [\<lparr>filename = ''A'', reads = PyStr ''10''\<rparr>, \<lparr>filename = ''A'', reads = PyStr ''7''\<rparr>,
          \<lparr>filename = ''B'', reads = PyInt 0\<rparr>]"
    by code_simp
  have h: "\<forall>G \<in> set ([] @ ?B # [?A]). \<exists>hdr rest. open_read env_scenario G = Inr (hdr # rest) \<and>
        ''Species'' \<in> set hdr \<and> ''Reads'' \<in> set hdr"
    by (simp add: env_scenario_def rows_A_def rows_B_def)
  have aA: "aggregate env_scenario ''SpeciesX'' [?A] =
      [\<lparr>filename = ''A'', reads = PyStr ''10''\<rparr>, \<lparr>filename = ''A'', reads = PyStr ''7''\<rparr>]"
    by code_simp
  have aN: "aggregate env_scenario ''SpeciesX'' [] = []"
    by (simp add: aggregate_def)
  have sB: "shorten_name ?B = ''B''" by code_simp
  note th = absent_species_zero_record
  from th [of env_scenario "[?A]" ?B "[]" "''SpeciesX''"] r n
  have c1: "[\<lparr>filename = ''A'', reads = PyStr ''10''\<rparr>, \<lparr>filename = ''A'', reads = PyStr ''7''\<rparr>,
          \<lparr>filename = ''B'', reads = PyInt 0\<rparr>] =
      aggregate env_scenario ''SpeciesX'' [?A] @ [\<lparr>filename = shorten_name ?B, reads = PyInt 0\<rparr>]
        @ aggregate env_scenario ''SpeciesX'' []"
    by blast
  from th [of env_scenario "[]" ?B "[?A]" "''SpeciesX''"] h n
  have "create_species_dict env_scenario ([] @ ?B # [?A]) ''SpeciesX'' =
      Inr (aggregate env_scenario ''SpeciesX'' [] @ [\<lparr>filename = shorten_name ?B, reads = PyInt 0\<rparr>]
        @ aggregate env_scenario ''SpeciesX'' [?A])"
    by blast
  then have c2: "create_species_dict env_scenario [?B, ?A] ''SpeciesX'' =
     Inr [\<lparr>filename = ''B'', reads = PyInt 0\<rparr>, \<lparr>filename = ''A'', reads = PyStr ''10''\<rparr>,
          \<lparr>filename = ''A'', reads = PyStr ''7''\<rparr>]"
    by (simp add: aA aN sB)
  from n r c2 show ?thesis by simp
qed

subsection \<open>The exported table\<close>







text \<open>
  C7. The export is a function of what the pipeline reads: two runs with the same query
  that discover the same files in the same order, find the same contents in them and
  get the same answer when opening the output file produce the same file name and the
  same text (or fail with the same error).
\<close>

theorem export_deterministic:
  "glob env1 ''*final_results.csv'' = glob env2 ''*final_results.csv'' \<Longrightarrow>
   \<forall>F \<in> set (glob env1 ''*final_results.csv''). open_read env1 F = open_read env2 F \<Longrightarrow>
   open_write env1 (q @ ''.csv'') = open_write env2 (q @ ''.csv'') \<Longrightarrow>
   main env1 q = main env2 q"
proof -
  assume g: "glob env1 ''*final_results.csv'' = glob env2 ''*final_results.csv''"
    and r: "\<forall>F \<in> set (glob env1 ''*final_results.csv''). open_read env1 F = open_read env2 F"
    and w: "open_write env1 (q @ ''.csv'') = open_write env2 (q @ ''.csv'')"
  have c: "create_species_dict env1 (glob env1 ''*final_results.csv'') q =
      create_species_dict env2 (glob env1 ''*final_results.csv'') q"
    unfolding create_species_dict_def using r by (rule csv_loop_cong)
  have x: "results_to_csv env1 q res = results_to_csv env2 q res" for res
    using w by (simp add: results_to_csv_def)
  show ?thesis
  proof (cases "create_species_dict env2 (glob env2 ''*final_results.csv'') q")
    case (Inl e)
    then show ?thesis using g c by (simp add: main_def)
  next
    case (Inr res)
    then show ?thesis using g c x [of res] by (simp add: main_def)
  qed
qed

theorem export_deterministic_witness:
  "scandir env_scenario \<noteq> scandir env_mixed \<and>
   main env_scenario ''SpeciesX'' = main env_mixed ''SpeciesX'' \<and>
   main env_mixed ''SpeciesX'' =
     Inr (''SpeciesX.csv'',
          ''filename,reads'' @ [CHR 0x0D, CHR 0x0A] @ ''A,10'' @ [CHR 0x0D, CHR 0x0A] @
          ''A,7'' @ [CHR 0x0D, CHR 0x0A] @ ''B,0'' @ [CHR 0x0D, CHR 0x0A])"
proof -
  have g1: "glob env_scenario ''*final_results.csv'' =
      [''A_final_results.csv'', ''B_final_results.csv'']" by code_simp
  have g2: "glob env_mixed ''*final_results.csv'' =
      [''A_final_results.csv'', ''B_final_results.csv'']" by code_simp
  have g: "glob env_scenario ''*final_results.csv'' = glob env_mixed ''*final_results.csv''"
    by (simp only: g1 g2)
  have r: "\<forall>F \<in> set (glob env_scenario ''*final_results.csv'').
      open_read env_scenario F = open_read env_mixed F"
    unfolding g1 by (simp add: env_scenario_def env_mixed_def)
  have w: "open_write env_scenario (''SpeciesX'' @ ''.csv'') =
      open_write env_mixed (''SpeciesX'' @ ''.csv'')"
    by (simp add: env_scenario_def env_mixed_def)
  have d: "scandir env_scenario \<noteq> scandir env_mixed"
    by (simp add: env_scenario_def env_mixed_def)
  have v: "main env_mixed ''SpeciesX'' =
     Inr (''SpeciesX.csv'',
          ''filename,reads'' @ [CHR 0x0D, CHR 0x0A] @ ''A,10'' @ [CHR 0x0D, CHR 0x0A] @
          ''A,7'' @ [CHR 0x0D, CHR 0x0A] @ ''B,0'' @ [CHR 0x0D, CHR 0x0A])"
    by code_simp
  from export_deterministic [OF g r w] d v show ?thesis by blast
qed

end
